theory Spec2Isabelle
  imports Main "HOL-Library.AList"
begin

section \<open>The table exporter \<^verbatim>\<open>read_db.py\<close>\<close>

text \<open>
  The script is a straight line of calls into \<^verbatim>\<open>sqlite3\<close>, \<^verbatim>\<open>json\<close> and the file
  system, with one nested loop of its own in between. The embedding keeps that shape:
  the outside world is a record, each library call is a function of it that returns a
  value or the exception it raises, and the script is the function \<open>read_db\<close> from the
  world before the run to what is left after it.
\<close>

subsection \<open>Python values\<close>

text \<open>
  A Python \<^verbatim>\<open>str\<close> is a sequence of Unicode code points, a \<^verbatim>\<open>bytes\<close> object and the
  content of a file are sequences of bytes. A float is carried as the text that
  \<^verbatim>\<open>float.__repr__\<close> gives for it: floating-point arithmetic is not modelled and the
  script does none.
\<close>

type_synonym pystr = "nat list"

definition ustr :: "string \<Rightarrow> pystr" where
  "ustr s = map of_char s"

datatype pyval =
    PyNone
  | PyInt int
  | PyFloat pystr
  | PyStr pystr
  | PyBytes string
  | PyList "pyval list"
  | PyDict "(pystr \<times> pyval) list"

text \<open>
  A \<^verbatim>\<open>dict\<close> keeps its keys in insertion order, and assigning to a key that is already
  there replaces the value in place: this is \<^const>\<open>AList.update\<close> on an association list.
\<close>

datatype error =
    OperationalError string
  | DatabaseError string
  | IndexError
  | PermissionError
  | TypeError string
  | UnicodeEncodeError

subsection \<open>The database and the file system\<close>

text \<open>
  One row of \<^verbatim>\<open>PRAGMA table_info\<close> is the tuple
  \<^verbatim>\<open>(cid, name, type, notnull, dflt_value, pk)\<close>; the script reads \<^verbatim>\<open>row[1]\<close>, the name.
  A table is what the two queries of the script return for it: its column descriptors
  and the rows of \<^verbatim>\<open>SELECT *\<close>, in the order the engine yields them.
\<close>

record col_info =
  col_cid :: int
  col_name :: pystr
  col_type :: pystr
  col_notnull :: int
  col_dflt_value :: pyval
  col_pk :: int

record table_data =
  table_info :: "col_info list"
  table_rows :: "pyval list list"

datatype dbfile =
    NoFile
  | NotADatabase
  | Database "string \<rightharpoonup> table_data"

record world =
  db_file :: dbfile
  db_openable :: bool
  out_file :: "string option"
  out_writable :: bool

text \<open>
  \<^verbatim>\<open>sqlite3.connect('todos.db')\<close> opens the file for reading and writing and creates it
  when it is not there; it raises only when the path cannot be opened at all. An open
  connection is the database it reads; a file that is no database is found out by the
  first statement, not by \<open>connect\<close>.
\<close>

datatype connection = Conn "(string \<rightharpoonup> table_data) option"

definition sqlite3_connect :: "world \<Rightarrow> error + connection" where
  "sqlite3_connect w =
     (if \<not> db_openable w then Inl (OperationalError ''unable to open database file'')
      else case db_file w of
             NoFile \<Rightarrow> Inr (Conn (Some Map.empty))
           | NotADatabase \<Rightarrow> Inr (Conn None)
           | Database tabs \<Rightarrow> Inr (Conn (Some tabs)))"

text \<open>
  \<^verbatim>\<open>cursor.execute('PRAGMA table_info(todos)')\<close> followed by \<^verbatim>\<open>fetchall()\<close>: the pragma
  yields no rows for a table that does not exist, and raises nothing.
\<close>

definition pragma_table_info :: "connection \<Rightarrow> string \<Rightarrow> error + col_info list" where
  "pragma_table_info c t =
     (case c of
        Conn None \<Rightarrow> Inl (DatabaseError ''file is not a database'')
      | Conn (Some tabs) \<Rightarrow>
          (case tabs t of None \<Rightarrow> Inr [] | Some td \<Rightarrow> Inr (table_info td)))"

text \<open>\<^verbatim>\<open>cursor.execute('SELECT * FROM todos')\<close> followed by \<^verbatim>\<open>fetchall()\<close>.\<close>

definition select_all :: "connection \<Rightarrow> string \<Rightarrow> error + pyval list list" where
  "select_all c t =
     (case c of
        Conn None \<Rightarrow> Inl (DatabaseError ''file is not a database'')
      | Conn (Some tabs) \<Rightarrow>
          (case tabs t of
             None \<Rightarrow> Inl (OperationalError (''no such table: '' @ t))
           | Some td \<Rightarrow> Inr (table_rows td)))"

subsection \<open>The loop of the script\<close>

text \<open>
  \<^verbatim>\<open>
  for row in rows:
      item = {}
      for i, col in enumerate(columns):
          item[col] = row[i]
      result["data"].append(item)
  \<close>
  \<^verbatim>\<open>row[i]\<close> raises \<^verbatim>\<open>IndexError\<close> when the row is too short; values beyond the last
  column are never read.
\<close>

fun build_item ::
  "pystr list \<Rightarrow> nat \<Rightarrow> pyval list \<Rightarrow> (pystr \<times> pyval) list \<Rightarrow> error + (pystr \<times> pyval) list"
where
  "build_item [] i row item = Inr item"
| "build_item (col # cols) i row item =
     (if i < length row then build_item cols (Suc i) row (AList.update col (row ! i) item)
      else Inl IndexError)"

fun build_data ::
  "pystr list \<Rightarrow> pyval list list \<Rightarrow> pyval list \<Rightarrow> error + pyval list"
where
  "build_data columns [] data = Inr data"
| "build_data columns (row # rows) data =
     (case build_item columns 0 row [] of
        Inl e \<Rightarrow> Inl e
      | Inr item \<Rightarrow> build_data columns rows (data @ [PyDict item]))"

text \<open>
  The dictionary \<^verbatim>\<open>result\<close>, as it stands once the loop is over: \<^verbatim>\<open>row_count\<close> was
  set to \<^verbatim>\<open>len(rows)\<close> before the loop, \<^verbatim>\<open>data\<close> was filled by it.
\<close>

definition result_doc :: "pystr list \<Rightarrow> pyval list list \<Rightarrow> pyval list \<Rightarrow> pyval" where
  "result_doc columns rows data =
     PyDict [(ustr ''table'', PyStr (ustr ''todos'')),
             (ustr ''columns'', PyList (map PyStr columns)),
             (ustr ''row_count'', PyInt (int (length rows))),
             (ustr ''data'', PyList data)]"

subsection \<open>\<^verbatim>\<open>json.dump(result, f, indent=2, ensure_ascii=False)\<close>\<close>

text \<open>
  With an indent the encoder is the generator \<^verbatim>\<open>_make_iterencode\<close> of
  \<^verbatim>\<open>json/encoder.py\<close>, and \<^verbatim>\<open>json.dump\<close> writes each chunk as the generator yields it.
  A run of the generator is the list of chunks it yields and the exception that ends
  it, if one does.
\<close>

type_synonym chunks = "pystr list \<times> error option"

definition yield :: "pystr \<Rightarrow> chunks" where
  "yield s = ([s], None)"

definition raise :: "error \<Rightarrow> chunks" where
  "raise e = ([], Some e)"

fun seq :: "chunks \<Rightarrow> chunks \<Rightarrow> chunks" where
  "seq (a, None) (b, e) = (a @ b, e)"
| "seq (a, Some e) _ = (a, Some e)"

text \<open>
  \<^verbatim>\<open>encode_basestring\<close>, the string encoder chosen by \<^verbatim>\<open>ensure_ascii=False\<close>: only the
  backslash (92), the double quote (34) and the control characters below 32 are
  replaced; every other code point stays as it is.
\<close>

definition hex_digit :: "nat \<Rightarrow> nat" where
  "hex_digit d = (if d < 10 then 48 + d else 87 + d)"

definition escape_char :: "nat \<Rightarrow> pystr" where
  "escape_char c =
     (if c = 92 then [92, 92]
      else if c = 34 then [92, 34]
      else if c = 8 then [92, 98]
      else if c = 12 then [92, 102]
      else if c = 10 then [92, 110]
      else if c = 13 then [92, 114]
      else if c = 9 then [92, 116]
      else if c < 32 then [92, 117, 48, 48, hex_digit (c div 16), hex_digit (c mod 16)]
      else [c])"

definition encode_basestring :: "pystr \<Rightarrow> pystr" where
  "encode_basestring s = [34] @ concat (map escape_char s) @ [34]"

fun digits :: "nat \<Rightarrow> pystr" where
  "digits n = (if n < 10 then [48 + n] else digits (n div 10) @ [48 + n mod 10])"

declare digits.simps [simp del]

definition intstr :: "int \<Rightarrow> pystr" where
  "intstr i = (if i < 0 then 45 # digits (nat (- i)) else digits (nat i))"

definition floatstr :: "pystr \<Rightarrow> pystr" where
  "floatstr r =
     (if r = ustr ''nan'' then ustr ''NaN''
      else if r = ustr ''inf'' then ustr ''Infinity''
      else if r = ustr ''-inf'' then ustr ''-Infinity''
      else r)"

text \<open>The values that the loops of the generator render in place.\<close>

fun scalar_text :: "pyval \<Rightarrow> pystr option" where
  "scalar_text (PyStr s) = Some (encode_basestring s)"
| "scalar_text PyNone = Some (ustr ''null'')"
| "scalar_text (PyInt i) = Some (intstr i)"
| "scalar_text (PyFloat r) = Some (floatstr r)"
| "scalar_text (PyBytes b) = None"
| "scalar_text (PyList vs) = None"
| "scalar_text (PyDict kvs) = None"

definition newline_indent :: "nat \<Rightarrow> nat \<Rightarrow> pystr" where
  "newline_indent indent level = 10 # replicate (indent * level) 32"

text \<open>
  \<open>iterencode_list\<close> and \<open>iterencode_dict\<close> are the \<^verbatim>\<open>for\<close> loops of
  \<^verbatim>\<open>_iterencode_list\<close> and \<^verbatim>\<open>_iterencode_dict\<close>; \<open>buf\<close> is the text that the list
  loop puts in front of the next item, \<open>first\<close> the flag of the dict loop. A value
  that is no JSON type reaches \<^verbatim>\<open>_default\<close>, which raises \<^verbatim>\<open>TypeError\<close>.
\<close>

function (sequential) iterencode :: "nat \<Rightarrow> nat \<Rightarrow> pyval \<Rightarrow> chunks"
  and iterencode_list :: "nat \<Rightarrow> nat \<Rightarrow> pystr \<Rightarrow> pyval list \<Rightarrow> chunks"
  and iterencode_dict :: "nat \<Rightarrow> nat \<Rightarrow> bool \<Rightarrow> (pystr \<times> pyval) list \<Rightarrow> chunks"
where
  "iterencode indent level (PyStr s) = yield (encode_basestring s)"
| "iterencode indent level PyNone = yield (ustr ''null'')"
| "iterencode indent level (PyInt i) = yield (intstr i)"
| "iterencode indent level (PyFloat r) = yield (floatstr r)"
| "iterencode indent level (PyList []) = yield (ustr ''[]'')"
| "iterencode indent level (PyList (v # vs)) =
     seq (iterencode_list indent (Suc level) (91 # newline_indent indent (Suc level)) (v # vs))
    (seq (yield (newline_indent indent level))
         (yield (ustr '']'')))"
| "iterencode indent level (PyDict []) = yield (ustr ''{}'')"
| "iterencode indent level (PyDict (kv # kvs)) =
     seq (yield (ustr ''{''))
    (seq (yield (newline_indent indent (Suc level)))
    (seq (iterencode_dict indent (Suc level) True (kv # kvs))
    (seq (yield (newline_indent indent level))
         (yield (ustr ''}'')))))"
| "iterencode indent level (PyBytes b) =
     raise (TypeError ''Object of type bytes is not JSON serializable'')"
| "iterencode_list indent level buf [] = ([], None)"
| "iterencode_list indent level buf (v # vs) =
     seq (case scalar_text v of
            Some t \<Rightarrow> yield (buf @ t)
          | None \<Rightarrow> seq (yield buf) (iterencode indent level v))
         (iterencode_list indent level (44 # newline_indent indent level) vs)"
| "iterencode_dict indent level first [] = ([], None)"
| "iterencode_dict indent level first ((k, v) # kvs) =
     seq (if first then ([], None) else yield (44 # newline_indent indent level))
    (seq (yield (encode_basestring k))
    (seq (yield (ustr '': ''))
    (seq (case scalar_text v of
            Some t \<Rightarrow> yield t
          | None \<Rightarrow> iterencode indent level v)
         (iterencode_dict indent level False kvs))))"
  by pat_completeness auto
termination
  by (relation "measure (\<lambda>x. case x of
        Inl (_, _, v) \<Rightarrow> 2 * size v
      | Inr (Inl (_, _, _, vs)) \<Rightarrow> 2 * size_list size vs + 1
      | Inr (Inr (_, _, _, kvs)) \<Rightarrow> 2 * size_list (size_prod (\<lambda>_. 0) size) kvs + 1)") auto

subsection \<open>The output file\<close>

text \<open>
  The file is opened with \<^verbatim>\<open>encoding='utf-8'\<close>: each chunk is encoded when it is
  written. A surrogate code point has no UTF-8 encoding and makes \<^verbatim>\<open>write\<close> raise
  \<^verbatim>\<open>UnicodeEncodeError\<close> before any byte of that chunk is stored. The line separator
  of the platform is taken to be the newline itself.
\<close>

definition utf8_char :: "nat \<Rightarrow> string option" where
  "utf8_char c =
     (if c < 128 then Some [char_of c]
      else if c < 2048 then Some [char_of (192 + c div 64), char_of (128 + c mod 64)]
      else if 55296 \<le> c \<and> c < 57344 then None
      else if c < 65536 then
        Some [char_of (224 + c div 4096), char_of (128 + c div 64 mod 64),
              char_of (128 + c mod 64)]
      else if c < 1114112 then
        Some [char_of (240 + c div 262144), char_of (128 + c div 4096 mod 64),
              char_of (128 + c div 64 mod 64), char_of (128 + c mod 64)]
      else None)"

fun utf8_encode :: "pystr \<Rightarrow> string option" where
  "utf8_encode [] = Some []"
| "utf8_encode (c # cs) =
     (case utf8_char c of
        None \<Rightarrow> None
      | Some b \<Rightarrow> (case utf8_encode cs of None \<Rightarrow> None | Some bs \<Rightarrow> Some (b @ bs)))"

text \<open>\<^verbatim>\<open>for chunk in iterable: fp.write(chunk)\<close>, on the chunks the generator yielded.\<close>

fun write_chunks :: "pystr list \<Rightarrow> string \<Rightarrow> string \<times> error option" where
  "write_chunks [] content = (content, None)"
| "write_chunks (c # cs) content =
     (case utf8_encode c of
        None \<Rightarrow> (content, Some UnicodeEncodeError)
      | Some b \<Rightarrow> write_chunks cs (content @ b))"

text \<open>
  \<open>json_dump\<close> gives the content of the freshly truncated file when the \<^verbatim>\<open>with\<close> block
  is left, and the exception that left it: a failed \<^verbatim>\<open>write\<close> comes before anything
  the generator would have raised later.
\<close>

definition json_dump :: "pyval \<Rightarrow> nat \<Rightarrow> string \<times> error option" where
  "json_dump obj indent =
     (case iterencode indent 0 obj of
        (cs, gen_err) \<Rightarrow>
          (case write_chunks cs [] of
             (content, Some e) \<Rightarrow> (content, Some e)
           | (content, None) \<Rightarrow> (content, gen_err)))"

text \<open>\<^verbatim>\<open>open('todos_data.json', 'w', encoding='utf-8')\<close>\<close>

definition open_w :: "world \<Rightarrow> error + unit" where
  "open_w w = (if out_writable w then Inr () else Inl PermissionError)"

subsection \<open>The script\<close>

datatype step = Connect | ReadColumns | ReadRows | Transform | OpenOutput | Serialize

text \<open>
  What a run leaves behind: the step that raised and its exception, whether the
  statement \<^verbatim>\<open>conn.close()\<close> was executed, the output file, the lines printed, and the
  dictionary \<^verbatim>\<open>result\<close> once the loop has filled it.
\<close>

record outcome =
  failure :: "(step \<times> error) option"
  close_called :: bool
  out_after :: "string option"
  printed :: "string list"
  document :: "pyval option"

definition aborted :: "world \<Rightarrow> step \<Rightarrow> error \<Rightarrow> outcome" where
  "aborted w st e =
     \<lparr>failure = Some (st, e), close_called = False, out_after = out_file w,
      printed = [], document = None\<rparr>"

definition read_db :: "world \<Rightarrow> outcome" where
  "read_db w =
     (case sqlite3_connect w of
        Inl e \<Rightarrow> aborted w Connect e
      | Inr conn \<Rightarrow>
     (case pragma_table_info conn ''todos'' of
        Inl e \<Rightarrow> aborted w ReadColumns e
      | Inr infos \<Rightarrow>
     (let columns = map col_name infos in
     (case select_all conn ''todos'' of
        Inl e \<Rightarrow> aborted w ReadRows e
      | Inr rows \<Rightarrow>
     (case build_data columns rows [] of
        Inl e \<Rightarrow> aborted w Transform e
      | Inr data \<Rightarrow>
     (let result = result_doc columns rows data in
     (case open_w w of
        Inl e \<Rightarrow> (aborted w OpenOutput e)\<lparr>document := Some result\<rparr>
      | Inr _ \<Rightarrow>
     (case json_dump result 2 of
        (content, Some e) \<Rightarrow>
          \<lparr>failure = Some (Serialize, e), close_called = False, out_after = Some content,
           printed = [], document = Some result\<rparr>
      | (content, None) \<Rightarrow>
          \<lparr>failure = None, close_called = True, out_after = Some content,
           printed = [''Data saved to todos_data.json''], document = Some result\<rparr>))))))))"

subsection \<open>The layout of the output file\<close>

text \<open>
  The specification describes the output as indented text: every element of a list and
  every entry of an object on a line of its own, indented by two spaces for each level
  of nesting, entries written \<^verbatim>\<open>"key": value\<close> in the order of the object, separated by
  commas, the closing bracket on a line of its own at the level of the opening one, and
  an empty list or object written \<^verbatim>\<open>[]\<close> or \<^verbatim>\<open>{}\<close>. \<open>render indent level v\<close> is that
  text for the value \<open>v\<close> at nesting level \<open>level\<close>; it is written from this description
  and not from the generator, with which it is compared below. A \<^verbatim>\<open>bytes\<close> value has no
  text: the layout is only compared with runs that raised nothing, and the documents of
  such runs hold no \<^verbatim>\<open>bytes\<close>.
\<close>

fun join :: "'a list \<Rightarrow> 'a list list \<Rightarrow> 'a list" where
  "join sep [] = []"
| "join sep [x] = x"
| "join sep (x # y # ys) = x @ sep @ join sep (y # ys)"

fun render :: "nat \<Rightarrow> nat \<Rightarrow> pyval \<Rightarrow> pystr" where
  "render indent level (PyStr s) = encode_basestring s"
| "render indent level PyNone = ustr ''null''"
| "render indent level (PyInt i) = intstr i"
| "render indent level (PyFloat r) = floatstr r"
| "render indent level (PyBytes b) = []"
| "render indent level (PyList vs) =
     (if vs = [] then ustr ''[]''
      else [91] @ newline_indent indent (Suc level)
           @ join (44 # newline_indent indent (Suc level)) (map (render indent (Suc level)) vs)
           @ newline_indent indent level @ [93])"
| "render indent level (PyDict kvs) =
     (if kvs = [] then ustr ''{}''
      else [123] @ newline_indent indent (Suc level)
           @ join (44 # newline_indent indent (Suc level))
               (map (\<lambda>kv. encode_basestring (fst kv) @ [58, 32] @ render indent (Suc level) (snd kv)) kvs)
           @ newline_indent indent level @ [125])"

text \<open>
  Text that UTF-8 can encode, that is, without surrogate code points: \<^verbatim>\<open>sqlite3\<close>
  decodes the names and the text values it returns from UTF-8, so it returns no other.
\<close>

definition encodable :: "pystr \<Rightarrow> bool" where
  "encodable s = list_all (\<lambda>c. utf8_char c \<noteq> None) s"

fun texts_ok :: "pyval \<Rightarrow> bool" where
  "texts_ok (PyStr s) = encodable s"
| "texts_ok (PyFloat r) = encodable r"
| "texts_ok (PyList vs) = (\<forall>v \<in> set vs. texts_ok v)"
| "texts_ok (PyDict kvs) = (\<forall>kv \<in> set kvs. encodable (fst kv) \<and> texts_ok (snd kv))"
| "texts_ok _ = True"

fun no_bytes :: "pyval \<Rightarrow> bool" where
  "no_bytes (PyBytes b) = False"
| "no_bytes (PyList vs) = (\<forall>v \<in> set vs. no_bytes v)"
| "no_bytes (PyDict kvs) = (\<forall>kv \<in> set kvs. no_bytes (snd kv))"
| "no_bytes _ = True"

text \<open>
  The values of a cell: \<^verbatim>\<open>sqlite3\<close> returns \<^verbatim>\<open>None\<close>, \<^verbatim>\<open>int\<close>, \<^verbatim>\<open>float\<close>, \<^verbatim>\<open>str\<close> or
  \<^verbatim>\<open>bytes\<close>, never a list or a dictionary.
\<close>

fun sqlite_value :: "pyval \<Rightarrow> bool" where
  "sqlite_value (PyList vs) = False"
| "sqlite_value (PyDict kvs) = False"
| "sqlite_value _ = True"

abbreviation bytes_error :: error where
  "bytes_error \<equiv> TypeError ''Object of type bytes is not JSON serializable''"

subsection \<open>Worlds used to state and to test the properties\<close>

text \<open>
  \<open>todos_of w\<close> is the table \<^verbatim>\<open>todos\<close> that a run in the world \<open>w\<close> can read, if there
  is one: the database file opens, is a database and has the table.
\<close>

definition todos_of :: "world \<Rightarrow> table_data option" where
  "todos_of w =
     (if db_openable w
      then (case db_file w of Database tabs \<Rightarrow> tabs ''todos'' | _ \<Rightarrow> None)
      else None)"

text \<open>
  The table of the scenario: columns \<^verbatim>\<open>(id INTEGER, title TEXT, done INTEGER)\<close>, rows
  \<^verbatim>\<open>(1, "Buy milk", 0)\<close> and \<^verbatim>\<open>(2, "Pay bills", 1)\<close>.
\<close>

definition todos_table :: table_data where
  "todos_table =
     \<lparr>table_info =
        [\<lparr>col_cid = 0, col_name = ustr ''id'', col_type = ustr ''INTEGER'', col_notnull = 0,
          col_dflt_value = PyNone, col_pk = 0\<rparr>,
         \<lparr>col_cid = 1, col_name = ustr ''title'', col_type = ustr ''TEXT'', col_notnull = 0,
          col_dflt_value = PyNone, col_pk = 0\<rparr>,
         \<lparr>col_cid = 2, col_name = ustr ''done'', col_type = ustr ''INTEGER'', col_notnull = 0,
          col_dflt_value = PyNone, col_pk = 0\<rparr>],
      table_rows =
        [[PyInt 1, PyStr (ustr ''Buy milk''), PyInt 0],
         [PyInt 2, PyStr (ustr ''Pay bills''), PyInt 1]]\<rparr>"

definition scenario_world :: world where
  "scenario_world =
     \<lparr>db_file = Database [''todos'' \<mapsto> todos_table], db_openable = True,
      out_file = None, out_writable = True\<rparr>"

text \<open>
  No database file; a database without the table, beside an older output file; a file
  that is not a database.
\<close>

definition missing_db_world :: world where
  "missing_db_world =
     \<lparr>db_file = NoFile, db_openable = True, out_file = None, out_writable = True\<rparr>"

definition no_table_world :: world where
  "no_table_world =
     \<lparr>db_file = Database Map.empty, db_openable = True, out_file = Some ''old'',
      out_writable = True\<rparr>"

definition garbage_db_world :: world where
  "garbage_db_world =
     \<lparr>db_file = NotADatabase, db_openable = True, out_file = None, out_writable = True\<rparr>"

text \<open>
  The table of the scenario without its rows; the scenario beside the output of an
  earlier run; a table with a \<^verbatim>\<open>BLOB\<close> column, beside an older output file.
\<close>

definition empty_table_world :: world where
  "empty_table_world =
     \<lparr>db_file = Database [''todos'' \<mapsto> todos_table\<lparr>table_rows := []\<rparr>], db_openable = True,
      out_file = None, out_writable = True\<rparr>"


definition blob_table :: table_data where
  "blob_table =
     \<lparr>table_info =
        [\<lparr>col_cid = 0, col_name = ustr ''id'', col_type = ustr ''INTEGER'', col_notnull = 0,
          col_dflt_value = PyNone, col_pk = 0\<rparr>,
         \<lparr>col_cid = 1, col_name = ustr ''photo'', col_type = ustr ''BLOB'', col_notnull = 0,
          col_dflt_value = PyNone, col_pk = 0\<rparr>],
      table_rows = [[PyInt 1, PyBytes ''x'']]\<rparr>"

definition blob_world :: world where
  "blob_world =
     \<lparr>db_file = Database [''todos'' \<mapsto> blob_table], db_openable = True,
      out_file = Some ''old'', out_writable = True\<rparr>"

section \<open>Properties\<close>

subsection \<open>The loop builds one record per row\<close>

lemma update_fresh: "k \<notin> fst ` set al \<Longrightarrow> AList.update k v al = al @ [(k, v)]"
  by (induction al) auto

lemma build_item_zip:
  "distinct cols \<Longrightarrow> set cols \<inter> fst ` set item = {} \<Longrightarrow> i + length cols \<le> length row \<Longrightarrow>
   build_item cols i row item = Inr (item @ zip cols (drop i row))"
proof (induction cols arbitrary: i item)
  case Nil
  then show ?case by simp
next
  case (Cons col cols)
  from Cons.prems have fresh: "col \<notin> fst ` set item" and i: "i < length row"
    by auto
  have upd: "AList.update col (row ! i) item = item @ [(col, row ! i)]"
    using fresh by (rule update_fresh)
  have disj: "set cols \<inter> fst ` set (item @ [(col, row ! i)]) = {}"
    using Cons.prems by auto
  have "build_item cols (Suc i) row (item @ [(col, row ! i)]) =
        Inr ((item @ [(col, row ! i)]) @ zip cols (drop (Suc i) row))"
    using Cons.prems disj by (intro Cons.IH) auto
  moreover have "drop i row = row ! i # drop (Suc i) row"
    using i by (simp add: Cons_nth_drop_Suc)
  ultimately show ?case
    using i upd by simp
qed

lemma build_data_zip:
  "distinct cols \<Longrightarrow> \<forall>row \<in> set rows. length cols \<le> length row \<Longrightarrow>
   build_data cols rows data = Inr (data @ map (\<lambda>row. PyDict (zip cols row)) rows)"
proof (induction rows arbitrary: data)
  case Nil
  then show ?case by simp
next
  case (Cons row rows)
  have "build_item cols 0 row [] = Inr (zip cols row)"
    using Cons.prems build_item_zip [of cols "[]" 0 row] by simp
  then show ?case
    using Cons by simp
qed

lemma todos_of_SomeD:
  "todos_of w = Some td \<Longrightarrow>
   db_openable w \<and> (\<exists>tabs. db_file w = Database tabs \<and> tabs ''todos'' = Some td)"
  by (auto simp: todos_of_def split: if_splits dbfile.splits)

lemma read_db_document:
  assumes "todos_of w = Some td"
    and "distinct (map col_name (table_info td))"
    and "\<forall>row \<in> set (table_rows td). length (table_info td) \<le> length row"
  shows "document (read_db w) =
         Some (result_doc (map col_name (table_info td)) (table_rows td)
                 (map (\<lambda>row. PyDict (zip (map col_name (table_info td)) row)) (table_rows td)))"
proof -
  have "build_data (map col_name (table_info td)) (table_rows td) [] =
        Inr (map (\<lambda>row. PyDict (zip (map col_name (table_info td)) row)) (table_rows td))"
    using assms(2,3) build_data_zip [of "map col_name (table_info td)" "table_rows td" "[]"]
    by simp
  then show ?thesis
    using todos_of_SomeD [OF assms(1)]
    by (auto simp add: read_db_def sqlite3_connect_def pragma_table_info_def select_all_def
        aborted_def Let_def split: sum.splits prod.splits option.splits)
qed

text \<open>
  C1: when the column names are distinct and every row has one value per column, the
  document that the run assembles has \<open>row_count\<close> equal to the length of \<open>data\<close>, which is
  the number of rows, and the keys of every record of \<open>data\<close> are exactly the column list,
  in its order.
\<close>

theorem document_invariant:
  assumes "todos_of w = Some td"
    and "distinct (map col_name (table_info td))"
    and "\<forall>row \<in> set (table_rows td). length row = length (table_info td)"
  shows "\<exists>data. document (read_db w) =
           Some (PyDict [(ustr ''table'', PyStr (ustr ''todos'')),
                         (ustr ''columns'', PyList (map PyStr (map col_name (table_info td)))),
                         (ustr ''row_count'', PyInt (int (length data))),
                         (ustr ''data'', PyList data)])
         \<and> length data = length (table_rows td)
         \<and> (\<forall>d \<in> set data. \<exists>item. d = PyDict item
                \<and> map fst item = map col_name (table_info td))"
proof -
  let ?cols = "map col_name (table_info td)"
  let ?data = "map (\<lambda>row. PyDict (zip ?cols row)) (table_rows td)"
  have "document (read_db w) = Some (result_doc ?cols (table_rows td) ?data)"
    using assms by (intro read_db_document) auto
  moreover have "\<forall>d \<in> set ?data. \<exists>item. d = PyDict item \<and> map fst item = ?cols"
    using assms(3) by auto
  ultimately show ?thesis
    by (intro exI [of _ ?data]) (simp add: result_doc_def)
qed

theorem document_invariant_witness:
  "todos_of scenario_world = Some todos_table
   \<and> distinct (map col_name (table_info todos_table))
   \<and> (\<exists>data. document (read_db scenario_world) =
           Some (PyDict [(ustr ''table'', PyStr (ustr ''todos'')),
                         (ustr ''columns'',
                          PyList (map PyStr (map col_name (table_info todos_table)))),
                         (ustr ''row_count'', PyInt (int (length data))),
                         (ustr ''data'', PyList data)])
         \<and> length data = 2)"
proof -
  have h1: "todos_of scenario_world = Some todos_table"
    by (simp add: todos_of_def scenario_world_def)
  have h2: "distinct (map col_name (table_info todos_table))"
    by (simp add: todos_table_def ustr_def)
  have h3: "\<forall>row \<in> set (table_rows todos_table). length row = length (table_info todos_table)"
    by (simp add: todos_table_def)
  have h4: "length (table_rows todos_table) = 2"
    by (simp add: todos_table_def)
  show ?thesis
    using h1 h2 h4 document_invariant [OF h1 h2 h3] by auto
qed

lemma map_of_zip_nth_le:
  "distinct xs \<Longrightarrow> i < length xs \<Longrightarrow> length xs \<le> length ys \<Longrightarrow>
   map_of (zip xs ys) (xs ! i) = Some (ys ! i)"
proof (induction xs arbitrary: i ys)
  case Nil
  then show ?case by simp
next
  case (Cons x xs)
  from Cons.prems(3) obtain y ys' where ys: "ys = y # ys'"
    by (cases ys) auto
  show ?case
  proof (cases i)
    case 0
    then show ?thesis using ys by simp
  next
    case (Suc j)
    then have j: "j < length xs"
      using Cons.prems(2) by simp
    then have "xs ! j \<noteq> x"
      using Cons.prems(1) nth_mem [OF j] by auto
    moreover have "map_of (zip xs ys') (xs ! j) = Some (ys' ! j)"
      using Cons.prems ys j by (intro Cons.IH) auto
    ultimately show ?thesis
      using ys Suc by simp
  qed
qed

text \<open>
  C9: the column list of the document is the list of names of the column descriptors, in
  their order, and in the record of row \<open>r\<close> the name of column \<open>i\<close> is bound to the value
  \<open>i\<close> of that row, as the engine returned it. Column names are distinct and no row is
  shorter than the column list.
\<close>

theorem columns_and_values_by_position:
  assumes "todos_of w = Some td"
    and "distinct (map col_name (table_info td))"
    and "\<forall>row \<in> set (table_rows td). length (table_info td) \<le> length row"
  shows "\<exists>data. document (read_db w) =
           Some (result_doc (map col_name (table_info td)) (table_rows td) data)
         \<and> length data = length (table_rows td)
         \<and> (\<forall>r < length (table_rows td). \<forall>i < length (table_info td).
              \<exists>item. data ! r = PyDict item
                \<and> map_of item (col_name (table_info td ! i)) = Some (table_rows td ! r ! i))"
proof -
  let ?cols = "map col_name (table_info td)"
  let ?data = "map (\<lambda>row. PyDict (zip ?cols row)) (table_rows td)"
  have doc: "document (read_db w) = Some (result_doc ?cols (table_rows td) ?data)"
    using assms by (rule read_db_document)
  have "map_of (zip ?cols (table_rows td ! r)) (col_name (table_info td ! i))
        = Some (table_rows td ! r ! i)"
    if "r < length (table_rows td)" and "i < length (table_info td)" for r i
  proof -
    have "length ?cols \<le> length (table_rows td ! r)"
      using assms(3) that(1) by simp
    then have "map_of (zip ?cols (table_rows td ! r)) (?cols ! i) = Some (table_rows td ! r ! i)"
      using assms(2) that(2) by (intro map_of_zip_nth_le) auto
    then show ?thesis
      using that(2) by simp
  qed
  then show ?thesis
    using doc by (intro exI [of _ ?data]) simp
qed

theorem columns_and_values_by_position_witness:
  "todos_of scenario_world = Some todos_table
   \<and> distinct (map col_name (table_info todos_table))
   \<and> (\<exists>data. document (read_db scenario_world) =
           Some (result_doc (map col_name (table_info todos_table))
                   (table_rows todos_table) data)
         \<and> length data = 2)"
proof -
  have h1: "todos_of scenario_world = Some todos_table"
    by (simp add: todos_of_def scenario_world_def)
  have h2: "distinct (map col_name (table_info todos_table))"
    by (simp add: todos_table_def ustr_def)
  have h3: "\<forall>row \<in> set (table_rows todos_table). length (table_info todos_table) \<le> length row"
    by (simp add: todos_table_def)
  have h4: "length (table_rows todos_table) = 2"
    by (simp add: todos_table_def)
  show ?thesis
    using h1 h2 h4 columns_and_values_by_position [OF h1 h2 h3] by auto
qed

text \<open>
  C8: on the scenario table the run ends without an exception, the document has
  \<open>row_count\<close> 2 and the two records of the scenario as \<open>data\<close>, and the output file
  holds that document, as \<^verbatim>\<open>json.dump\<close> renders it.
\<close>

theorem scenario_document:
  \<open>failure (read_db scenario_world) = None
   \<and> document (read_db scenario_world) =
     Some (PyDict
       [(ustr ''table'', PyStr (ustr ''todos'')),
        (ustr ''columns'', PyList [PyStr (ustr ''id''), PyStr (ustr ''title''), PyStr (ustr ''done'')]),
        (ustr ''row_count'', PyInt 2),
        (ustr ''data'', PyList
          [PyDict [(ustr ''id'', PyInt 1), (ustr ''title'', PyStr (ustr ''Buy milk'')),
                   (ustr ''done'', PyInt 0)],
           PyDict [(ustr ''id'', PyInt 2), (ustr ''title'', PyStr (ustr ''Pay bills'')),
                   (ustr ''done'', PyInt 1)]])])
   \<and> out_after (read_db scenario_world) =
     Some (''{\<newline>''
       @ ''  "table": "todos",\<newline>''
       @ ''  "columns": [\<newline>''
       @ ''    "id",\<newline>''
       @ ''    "title",\<newline>''
       @ ''    "done"\<newline>''
       @ ''  ],\<newline>''
       @ ''  "row_count": 2,\<newline>''
       @ ''  "data": [\<newline>''
       @ ''    {\<newline>''
       @ ''      "id": 1,\<newline>''
       @ ''      "title": "Buy milk",\<newline>''
       @ ''      "done": 0\<newline>''
       @ ''    },\<newline>''
       @ ''    {\<newline>''
       @ ''      "id": 2,\<newline>''
       @ ''      "title": "Pay bills",\<newline>''
       @ ''      "done": 1\<newline>''
       @ ''    }\<newline>''
       @ ''  ]\<newline>''
       @ ''}'')\<close>
  by code_simp

subsection \<open>The script's own call of \<^verbatim>\<open>conn.close()\<close>\<close>

text \<open>
  \<^verbatim>\<open>conn.close()\<close> is the last statement of the script and nothing guards the
  connection, so an exception in any earlier statement skips it: on a file that is no
  database the run stops at the column query. The statement is executed exactly on the
  runs that end without an exception. What becomes of a connection that the script left
  open is decided by the interpreter when the process ends, which is outside this model.
\<close>

lemma garbage_db_run:
  "failure (read_db garbage_db_world) =
     Some (ReadColumns, DatabaseError ''file is not a database'')
   \<and> \<not> close_called (read_db garbage_db_world)"
  by (simp add: read_db_def garbage_db_world_def sqlite3_connect_def pragma_table_info_def
      aborted_def)

lemma close_called_iff_success:
  "close_called (read_db w) \<longleftrightarrow> failure (read_db w) = None"
  by (simp add: read_db_def aborted_def Let_def split: sum.splits prod.splits option.splits)

subsection \<open>Failures of the database calls\<close>

text \<open>
  C3: with no database file the run does not fail at \<open>connect\<close>: it fails at the row
  query.
\<close>

theorem missing_db_counterexample:
  "failure (read_db missing_db_world) =
     Some (ReadRows, OperationalError ''no such table: todos'')"
  by (simp add: read_db_def missing_db_world_def sqlite3_connect_def pragma_table_info_def
      select_all_def aborted_def)

text \<open>
  C3, as amended: with no database file at a path that can be opened, \<open>connect\<close> and the column query
  succeed, the row query raises \<^verbatim>\<open>OperationalError: no such table: todos\<close>, and the
  output file is left as it was.
\<close>

theorem missing_db_fails_at_read_rows:
  assumes "db_file w = NoFile" and "db_openable w"
  shows "failure (read_db w) = Some (ReadRows, OperationalError ''no such table: todos'')
         \<and> out_after (read_db w) = out_file w"
  using assms
  by (simp add: read_db_def sqlite3_connect_def pragma_table_info_def select_all_def
      aborted_def)

theorem missing_db_fails_at_read_rows_witness:
  "db_file missing_db_world = NoFile \<and> db_openable missing_db_world
   \<and> failure (read_db missing_db_world) =
       Some (ReadRows, OperationalError ''no such table: todos'')
   \<and> out_after (read_db missing_db_world) = None"
proof -
  have h1: "db_file missing_db_world = NoFile" and h2: "db_openable missing_db_world"
    by (simp_all add: missing_db_world_def)
  have "out_file missing_db_world = None"
    by (simp add: missing_db_world_def)
  then show ?thesis
    using h1 h2 missing_db_fails_at_read_rows [OF h1 h2] by simp
qed

text \<open>
  C4: with a database that lacks the table the run does not fail at the column query: it
  fails at the row query.
\<close>

theorem missing_table_counterexample:
  "failure (read_db no_table_world) =
     Some (ReadRows, OperationalError ''no such table: todos'')"
  by (simp add: read_db_def no_table_world_def sqlite3_connect_def pragma_table_info_def
      select_all_def aborted_def)

text \<open>
  C4, as amended: with a database that lacks the table the column query succeeds, the row query
  raises \<^verbatim>\<open>OperationalError: no such table: todos\<close>, and the output file is left as it
  was.
\<close>

theorem missing_table_fails_at_read_rows:
  assumes "db_openable w" and "db_file w = Database tabs" and "tabs ''todos'' = None"
  shows "failure (read_db w) = Some (ReadRows, OperationalError ''no such table: todos'')
         \<and> out_after (read_db w) = out_file w"
  using assms
  by (simp add: read_db_def sqlite3_connect_def pragma_table_info_def select_all_def
      aborted_def)

theorem missing_table_fails_at_read_rows_witness:
  "db_openable no_table_world \<and> db_file no_table_world = Database Map.empty
   \<and> failure (read_db no_table_world) =
       Some (ReadRows, OperationalError ''no such table: todos'')
   \<and> out_after (read_db no_table_world) = Some ''old''"
proof -
  have h1: "db_openable no_table_world"
    and h2: "db_file no_table_world = Database Map.empty"
    by (simp_all add: no_table_world_def)
  have h3: "(Map.empty :: string \<rightharpoonup> table_data) ''todos'' = None"
    by simp
  have "out_file no_table_world = Some ''old''"
    by (simp add: no_table_world_def)
  then show ?thesis
    using h1 h2 missing_table_fails_at_read_rows [OF h1 h2 h3] by simp
qed

subsection \<open>The generator writes the layout\<close>

text \<open>
  A run of the generator that raises nothing yields, chunk after chunk, the layout of
  the value; the two loops are described by what they have yielded so far.
\<close>

lemma snd_seq [simp]: "snd (seq a b) = (case snd a of None \<Rightarrow> snd b | Some e \<Rightarrow> Some e)"
  by (cases a; cases b; cases "snd a") auto

lemma fst_seq [simp]: "fst (seq a b) = (case snd a of None \<Rightarrow> fst a @ fst b | Some e \<Rightarrow> fst a)"
  by (cases a; cases b; cases "snd a") auto

lemma yield_simps [simp]: "fst (yield s) = [s]" "snd (yield s) = None"
  by (simp_all add: yield_def)

lemma raise_simps [simp]: "fst (raise e) = []" "snd (raise e) = Some e"
  by (simp_all add: raise_def)

lemma scalar_text_render: "scalar_text v = Some t \<Longrightarrow> render indent level v = t"
  by (cases v) auto

lemma scalar_text_iterencode:
  "scalar_text v = Some t \<Longrightarrow> iterencode indent level v = yield t"
  by (cases v) auto

lemma iterencode_render:
  "snd (iterencode indent level v) = None \<Longrightarrow>
     concat (fst (iterencode indent level v)) = render indent level v"
  "snd (iterencode_list indent level buf vs) = None \<Longrightarrow>
     concat (fst (iterencode_list indent level buf vs)) =
       (if vs = [] then []
        else buf @ join (44 # newline_indent indent level) (map (render indent level) vs))"
  "snd (iterencode_dict indent level first kvs) = None \<Longrightarrow>
     concat (fst (iterencode_dict indent level first kvs)) =
       (if kvs = [] then []
        else (if first then [] else 44 # newline_indent indent level)
             @ join (44 # newline_indent indent level)
                 (map (\<lambda>kv. encode_basestring (fst kv) @ [58, 32] @ render indent level (snd kv)) kvs))"
proof (induction indent level v and indent level buf vs and indent level first kvs
       rule: iterencode_iterencode_list_iterencode_dict.induct)
  case (11 indent level buf v vs)
  then show ?case
    by (cases vs) (auto simp: ustr_def scalar_text_render split: option.splits)
next
  case (13 indent level first k v kvs)
  then show ?case
    by (cases kvs) (auto simp: ustr_def scalar_text_render split: option.splits)
qed (auto simp: ustr_def split: option.splits)

subsection \<open>UTF-8\<close>

lemma encodable_simps [simp]:
  "encodable []"
  "encodable (c # s) \<longleftrightarrow> utf8_char c \<noteq> None \<and> encodable s"
  "encodable (a @ b) \<longleftrightarrow> encodable a \<and> encodable b"
  by (simp_all add: encodable_def)

lemma utf8_encode_append:
  "utf8_encode (a @ b) =
     (case utf8_encode a of
        None \<Rightarrow> None
      | Some x \<Rightarrow> (case utf8_encode b of None \<Rightarrow> None | Some y \<Rightarrow> Some (x @ y)))"
  by (induction a) (auto split: option.splits)

lemma encodable_iff: "encodable s \<longleftrightarrow> utf8_encode s \<noteq> None"
  by (induction s) (auto split: option.splits)

lemma utf8_char_ascii: "c < 128 \<Longrightarrow> utf8_char c = Some [char_of c]"
  by (simp add: utf8_char_def)

lemma encodable_ascii: "\<forall>c \<in> set s. c < 128 \<Longrightarrow> encodable s"
  by (induction s) (auto simp: utf8_char_ascii)

lemma utf8_char_small: "n < 256 \<Longrightarrow> utf8_char n \<noteq> None"
  by (simp add: utf8_char_def)

lemma utf8_char_of_char: "utf8_char (of_char (c :: char)) \<noteq> None"
  by (rule utf8_char_small) (rule nat_of_char_less_256)

lemma encodable_ustr [simp]: "encodable (ustr s)"
  by (induction s) (simp_all add: ustr_def utf8_char_of_char)

lemma hex_digit_ascii: "d < 16 \<Longrightarrow> hex_digit d < 128"
  by (simp add: hex_digit_def)

lemma encodable_escape_char: "utf8_char c \<noteq> None \<Longrightarrow> encodable (escape_char c)"
proof -
  assume c: "utf8_char c \<noteq> None"
  have "hex_digit (c div 16) < 128" if "c < 32"
    using that by (intro hex_digit_ascii) simp
  moreover have "hex_digit (c mod 16) < 128"
    by (intro hex_digit_ascii) simp
  ultimately show ?thesis
    using c by (simp add: escape_char_def utf8_char_ascii)
qed

lemma encodable_encode_basestring: "encodable s \<Longrightarrow> encodable (encode_basestring s)"
  by (induction s) (auto simp: encode_basestring_def encodable_escape_char utf8_char_ascii)

lemma digits_ascii: "\<forall>c \<in> set (digits n). c < 128"
proof (induction n rule: digits.induct)
  case (1 n)
  show ?case
  proof (cases "n < 10")
    case True
    then show ?thesis by (subst digits.simps) simp
  next
    case False
    have "48 + n mod 10 < 128" by simp
    with False 1 show ?thesis by (subst digits.simps) simp
  qed
qed

lemma encodable_intstr: "encodable (intstr i)"
  using digits_ascii by (auto simp: intstr_def utf8_char_ascii intro: encodable_ascii)

lemma encodable_floatstr: "encodable r \<Longrightarrow> encodable (floatstr r)"
  by (simp add: floatstr_def)

lemma encodable_newline_indent [simp]: "encodable (newline_indent indent level)"
  by (auto simp: newline_indent_def utf8_char_ascii intro: encodable_ascii)

lemma scalar_text_encodable:
  "scalar_text v = Some t \<Longrightarrow> texts_ok v \<Longrightarrow> encodable t"
  by (cases v) (auto simp: encodable_encode_basestring encodable_intstr encodable_floatstr)

lemma scalar_text_None_no_bytes:
  "scalar_text v = None \<Longrightarrow> no_bytes v \<Longrightarrow> (\<exists>vs. v = PyList vs) \<or> (\<exists>kvs. v = PyDict kvs)"
  by (cases v) auto

subsection \<open>The generator on values that can be serialized\<close>

text \<open>
  Every chunk of a value whose texts can be encoded can be encoded, and the generator
  raises exactly when it meets a \<^verbatim>\<open>bytes\<close> value.
\<close>

lemma chunks_encodable:
  "texts_ok v \<Longrightarrow> \<forall>c \<in> set (fst (iterencode indent level v)). encodable c"
  "encodable buf \<Longrightarrow> \<forall>v \<in> set vs. texts_ok v \<Longrightarrow>
     \<forall>c \<in> set (fst (iterencode_list indent level buf vs)). encodable c"
  "\<forall>kv \<in> set kvs. encodable (fst kv) \<and> texts_ok (snd kv) \<Longrightarrow>
     \<forall>c \<in> set (fst (iterencode_dict indent level first kvs)). encodable c"
proof (induction indent level v and indent level buf vs and indent level first kvs
       rule: iterencode_iterencode_list_iterencode_dict.induct)
  case (1 indent level s)
  then show ?case by (simp add: encodable_encode_basestring)
next
  case (2 indent level)
  then show ?case by simp
next
  case (3 indent level i)
  then show ?case by (simp add: encodable_intstr)
next
  case (4 indent level r)
  then show ?case by (simp add: encodable_floatstr)
next
  case (5 indent level)
  then show ?case by simp
next
  case (6 indent level v vs)
  have "encodable (91 # newline_indent indent (Suc level))"
    by (simp add: utf8_char_ascii)
  moreover have "\<forall>x \<in> set (v # vs). texts_ok x"
    using 6(2) by simp
  ultimately have "\<forall>c \<in> set (fst (iterencode_list indent (Suc level)
      (91 # newline_indent indent (Suc level)) (v # vs))). encodable c"
    by (rule 6(1))
  then show ?case
    by (auto split: option.splits)
next
  case (7 indent level)
  then show ?case by simp
next
  case (8 indent level kv kvs)
  have "\<forall>x \<in> set (kv # kvs). encodable (fst x) \<and> texts_ok (snd x)"
    using 8(2) by simp
  then have "\<forall>c \<in> set (fst (iterencode_dict indent (Suc level) True (kv # kvs))). encodable c"
    by (rule 8(1))
  then show ?case
    by (auto split: option.splits)
next
  case (9 indent level b)
  then show ?case by simp
next
  case (10 indent level buf)
  then show ?case by simp
next
  case (11 indent level buf v vs)
  have rest: "\<forall>c \<in> set (fst (iterencode_list indent level
      (44 # newline_indent indent level) vs)). encodable c"
    using 11(4) by (intro 11(2)) (simp_all add: utf8_char_ascii)
  show ?case
  proof (cases "scalar_text v")
    case None
    have "\<forall>c \<in> set (fst (iterencode indent level v)). encodable c"
      using None 11(4) by (intro 11(1)) simp_all
    then show ?thesis
      using None rest 11(3) by (auto split: option.splits)
  next
    case (Some t)
    have "encodable t"
      using Some 11(4) by (intro scalar_text_encodable [of v]) simp_all
    then show ?thesis
      using Some rest 11(3) by (auto split: option.splits)
  qed
next
  case (12 indent level first)
  then show ?case by simp
next
  case (13 indent level first k v kvs)
  have rest: "\<forall>c \<in> set (fst (iterencode_dict indent level False kvs)). encodable c"
    using 13(3) by (intro 13(2)) simp
  have k: "encodable (encode_basestring k)"
    using 13(3) by (simp add: encodable_encode_basestring)
  have sep: "encodable (44 # newline_indent indent level)"
    by (simp add: utf8_char_ascii)
  show ?case
  proof (cases "scalar_text v")
    case None
    have "\<forall>c \<in> set (fst (iterencode indent level v)). encodable c"
      using None 13(3) by (intro 13(1)) simp_all
    then show ?thesis
      using None rest k sep by (auto split: option.splits)
  next
    case (Some t)
    have "encodable t"
      using Some 13(3) by (intro scalar_text_encodable [of v]) simp_all
    then show ?thesis
      using Some rest k sep by (auto split: option.splits)
  qed
qed

lemma no_bytes_no_error:
  "no_bytes v \<Longrightarrow> snd (iterencode indent level v) = None"
  "\<forall>v \<in> set vs. no_bytes v \<Longrightarrow> snd (iterencode_list indent level buf vs) = None"
  "\<forall>kv \<in> set kvs. no_bytes (snd kv) \<Longrightarrow> snd (iterencode_dict indent level first kvs) = None"
  by (induction indent level v and indent level buf vs and indent level first kvs
      rule: iterencode_iterencode_list_iterencode_dict.induct)
     (auto split: option.splits)



subsection \<open>Writing the chunks\<close>

lemma write_chunks_encodable:
  "\<forall>c \<in> set cs. encodable c \<Longrightarrow>
   \<exists>b. utf8_encode (concat cs) = Some b \<and> write_chunks cs content = (content @ b, None)"
proof (induction cs arbitrary: content)
  case Nil
  then show ?case by simp
next
  case (Cons c cs)
  from Cons.prems have "encodable c" and rest: "\<forall>c \<in> set cs. encodable c"
    by simp_all
  then obtain x where x: "utf8_encode c = Some x"
    by (auto simp: encodable_iff)
  from Cons.IH [OF rest, of "content @ x"] obtain b where
    b: "utf8_encode (concat cs) = Some b"
       "write_chunks cs (content @ x) = ((content @ x) @ b, None)"
    by blast
  have "utf8_encode (concat (c # cs)) = Some (x @ b)"
    using x b(1) by (simp add: utf8_encode_append)
  moreover have "write_chunks (c # cs) content = (content @ x @ b, None)"
    using x b(2) by simp
  ultimately show ?case by blast
qed

lemma write_chunks_no_error:
  "write_chunks cs content = (content', None) \<Longrightarrow>
   \<exists>b. utf8_encode (concat cs) = Some b \<and> content' = content @ b"
proof (induction cs arbitrary: content)
  case Nil
  then show ?case by simp
next
  case (Cons c cs)
  show ?case
  proof (cases "utf8_encode c")
    case None
    with Cons.prems show ?thesis by simp
  next
    case (Some x)
    with Cons.prems have "write_chunks cs (content @ x) = (content', None)"
      by simp
    from Cons.IH [OF this] obtain b where
      b: "utf8_encode (concat cs) = Some b" "content' = (content @ x) @ b"
      by blast
    have "utf8_encode (concat (c # cs)) = Some (x @ b)"
      using Some b(1) by (simp add: utf8_encode_append)
    then show ?thesis
      using b(2) by simp
  qed
qed

lemma json_dump_no_error:
  assumes "json_dump v indent = (content, None)"
  shows "utf8_encode (render indent 0 v) = Some content"
proof -
  obtain cs g where it: "iterencode indent 0 v = (cs, g)"
    by (cases "iterencode indent 0 v")
  obtain c' r where wr: "write_chunks cs [] = (c', r)"
    by (cases "write_chunks cs []")
  from assms it wr have "r = None" "g = None" "c' = content"
    by (auto simp: json_dump_def split: option.splits)
  with wr obtain b where "utf8_encode (concat cs) = Some b" "content = b"
    using write_chunks_no_error [of cs "[]" content] by auto
  moreover have "concat cs = render indent 0 v"
    using iterencode_render(1) [of indent 0 v] it \<open>g = None\<close> by simp
  ultimately show ?thesis by simp
qed

lemma json_dump_clean:
  assumes "texts_ok v" and "no_bytes v"
  shows "snd (json_dump v indent) = None"
proof -
  obtain cs g where it: "iterencode indent 0 v = (cs, g)"
    by (cases "iterencode indent 0 v")
  have "g = None"
    using no_bytes_no_error(1) [OF assms(2), of indent 0] it by simp
  moreover have "\<forall>c \<in> set cs. encodable c"
    using chunks_encodable(1) [OF assms(1), of indent 0] it by simp
  then obtain b where "write_chunks cs [] = ([] @ b, None)"
    using write_chunks_encodable [of cs "[]"] by blast
  ultimately show ?thesis
    using it by (simp add: json_dump_def)
qed

subsection \<open>Runs that reach the output file\<close>

lemma read_db_serialize:
  assumes "todos_of w = Some td"
    and "build_data (map col_name (table_info td)) (table_rows td) [] = Inr data"
    and "out_writable w"
  shows "read_db w =
    (case json_dump (result_doc (map col_name (table_info td)) (table_rows td) data) 2 of
       (content, Some e) \<Rightarrow>
          \<lparr>failure = Some (Serialize, e), close_called = False, out_after = Some content,
           printed = [],
           document = Some (result_doc (map col_name (table_info td)) (table_rows td) data)\<rparr>
      | (content, None) \<Rightarrow>
          \<lparr>failure = None, close_called = True, out_after = Some content,
           printed = [''Data saved to todos_data.json''],
           document = Some (result_doc (map col_name (table_info td)) (table_rows td) data)\<rparr>)"
  using todos_of_SomeD [OF assms(1)] assms(2,3)
  by (auto simp add: read_db_def sqlite3_connect_def pragma_table_info_def select_all_def
      open_w_def Let_def split: sum.splits prod.splits option.splits)

lemma read_db_success:
  assumes "todos_of w = Some td"
    and "build_data (map col_name (table_info td)) (table_rows td) [] = Inr data"
    and "out_writable w"
    and "texts_ok (result_doc (map col_name (table_info td)) (table_rows td) data)"
    and "no_bytes (result_doc (map col_name (table_info td)) (table_rows td) data)"
  shows "failure (read_db w) = None"
    and "document (read_db w) =
           Some (result_doc (map col_name (table_info td)) (table_rows td) data)"
    and "\<exists>bytes. out_after (read_db w) = Some bytes
           \<and> utf8_encode (render 2 0 (result_doc (map col_name (table_info td))
                 (table_rows td) data)) = Some bytes"
proof -
  let ?doc = "result_doc (map col_name (table_info td)) (table_rows td) data"
  obtain content where dump: "json_dump ?doc 2 = (content, None)"
    using json_dump_clean [OF assms(4,5), of 2] by (cases "json_dump ?doc 2") auto
  have run: "read_db w =
      \<lparr>failure = None, close_called = True, out_after = Some content,
       printed = [''Data saved to todos_data.json''], document = Some ?doc\<rparr>"
    using read_db_serialize [OF assms(1,2,3)] dump by simp
  show "failure (read_db w) = None" and "document (read_db w) = Some ?doc"
    using run by simp_all
  show "\<exists>bytes. out_after (read_db w) = Some bytes \<and> utf8_encode (render 2 0 ?doc) = Some bytes"
    using run json_dump_no_error [OF dump] by simp
qed


lemma render_result_doc:
  \<open>render 2 0 (result_doc cols rows data) =
     ustr ''{\<newline>  "table": "todos",\<newline>  "columns": '' @ render 2 1 (PyList (map PyStr cols))
     @ ustr '',\<newline>  "row_count": '' @ intstr (int (length rows))
     @ ustr '',\<newline>  "data": '' @ render 2 1 (PyList data) @ ustr ''\<newline>}''\<close>
  by (simp add: result_doc_def ustr_def encode_basestring_def escape_char_def
      newline_indent_def numeral_eq_Suc del: render.simps(6))





text \<open>
  C5: when the table is there and has no rows, the output path can be written and the
  column names are text that UTF-8 can encode, the run ends without an exception, the
  document has \<open>row_count\<close> 0 and the empty list as \<open>data\<close>, and the output file holds
  the document with \<^verbatim>\<open>"row_count": 0\<close> and \<^verbatim>\<open>"data": []\<close>.
\<close>

theorem empty_table_succeeds:
  assumes "todos_of w = Some td" and "table_rows td = []" and "out_writable w"
    and "\<forall>c \<in> set (table_info td). encodable (col_name c)"
  shows \<open>failure (read_db w) = None
       \<and> document (read_db w) =
           Some (PyDict [(ustr ''table'', PyStr (ustr ''todos'')),
                         (ustr ''columns'', PyList (map PyStr (map col_name (table_info td)))),
                         (ustr ''row_count'', PyInt 0),
                         (ustr ''data'', PyList [])])
       \<and> (\<exists>bytes. out_after (read_db w) = Some bytes
            \<and> utf8_encode
                 (ustr ''{\<newline>  "table": "todos",\<newline>  "columns": ''
                  @ render 2 1 (PyList (map PyStr (map col_name (table_info td))))
                  @ ustr '',\<newline>  "row_count": 0,\<newline>  "data": []\<newline>}'') = Some bytes)\<close>
proof -
  let ?cols = "map col_name (table_info td)"
  have build: "build_data ?cols (table_rows td) [] = Inr []"
    using assms(2) by simp
  have ok: "texts_ok (result_doc ?cols (table_rows td) [])"
    using assms(4) by (simp add: result_doc_def)
  have nb: "no_bytes (result_doc ?cols (table_rows td) [])"
    by (simp add: result_doc_def)
  note run = read_db_success [OF assms(1) build assms(3) ok nb]
  have doc: "result_doc ?cols (table_rows td) [] =
      PyDict [(ustr ''table'', PyStr (ustr ''todos'')),
              (ustr ''columns'', PyList (map PyStr ?cols)),
              (ustr ''row_count'', PyInt 0),
              (ustr ''data'', PyList [])]"
    using assms(2) by (simp add: result_doc_def)
  have layout: \<open>render 2 0 (result_doc ?cols (table_rows td) []) =
      ustr ''{\<newline>  "table": "todos",\<newline>  "columns": ''
      @ render 2 1 (PyList (map PyStr ?cols))
      @ ustr '',\<newline>  "row_count": 0,\<newline>  "data": []\<newline>}''\<close>
    unfolding render_result_doc using assms(2)
    by (simp add: ustr_def intstr_def digits.simps)
  show ?thesis
    using run(1) run(2) [unfolded doc] run(3) [unfolded layout] by blast
qed

theorem empty_table_succeeds_witness:
  \<open>todos_of empty_table_world = Some (todos_table\<lparr>table_rows := []\<rparr>)
   \<and> out_writable empty_table_world
   \<and> failure (read_db empty_table_world) = None
   \<and> document (read_db empty_table_world) =
       Some (PyDict [(ustr ''table'', PyStr (ustr ''todos'')),
                     (ustr ''columns'',
                      PyList [PyStr (ustr ''id''), PyStr (ustr ''title''), PyStr (ustr ''done'')]),
                     (ustr ''row_count'', PyInt 0),
                     (ustr ''data'', PyList [])])\<close>
proof -
  have h1: "todos_of empty_table_world = Some (todos_table\<lparr>table_rows := []\<rparr>)"
    by (simp add: todos_of_def empty_table_world_def)
  have h2: "table_rows (todos_table\<lparr>table_rows := []\<rparr>) = []"
    by simp
  have h3: "out_writable empty_table_world"
    by (simp add: empty_table_world_def)
  have h4: "\<forall>c \<in> set (table_info (todos_table\<lparr>table_rows := []\<rparr>)). encodable (col_name c)"
    by (simp add: todos_table_def)
  have cols: "map col_name (table_info (todos_table\<lparr>table_rows := []\<rparr>)) =
      [ustr ''id'', ustr ''title'', ustr ''done'']"
    by (simp add: todos_table_def)
  show ?thesis
    using h1 h3 cols empty_table_succeeds [OF h1 h2 h3 h4] by simp
qed



subsection \<open>A \<^verbatim>\<open>bytes\<close> value in a cell\<close>

text \<open>
  The generator raises when it reaches the first \<^verbatim>\<open>bytes\<close> value of a record; the last
  chunk it has yielded by then is the \<^verbatim>\<open>": "\<close> after the key of that cell.
\<close>

lemma sqlite_value_cases:
  "sqlite_value v \<Longrightarrow> (\<exists>b. v = PyBytes b) \<or> (\<exists>t. scalar_text v = Some t)"
  by (cases v) auto

lemma sqlite_value_no_bytes:
  "sqlite_value v \<Longrightarrow> no_bytes v \<longleftrightarrow> (\<forall>b. v \<noteq> PyBytes b)"
  by (cases v) auto

lemma iterencode_dict_bytes:
  "\<forall>kv \<in> set kvs. sqlite_value (snd kv) \<Longrightarrow> \<exists>kv \<in> set kvs. \<exists>b. snd kv = PyBytes b \<Longrightarrow>
   snd (iterencode_dict indent level first kvs) = Some bytes_error
   \<and> fst (iterencode_dict indent level first kvs) \<noteq> []
   \<and> last (fst (iterencode_dict indent level first kvs)) = ustr '': ''"
proof (induction kvs arbitrary: first)
  case Nil
  then show ?case by simp
next
  case (Cons kv kvs)
  obtain k v where kv: "kv = (k, v)"
    by (cases kv)
  from Cons.prems(1) kv have "sqlite_value v"
    by simp
  then consider b where "v = PyBytes b" | t where "scalar_text v = Some t" "\<forall>b. v \<noteq> PyBytes b"
    by (cases v) auto
  then show ?case
  proof cases
    case 1
    then show ?thesis
      using kv by simp
  next
    case 2
    from Cons.prems 2(2) kv have a: "\<forall>kv \<in> set kvs. sqlite_value (snd kv)"
      and b: "\<exists>kv \<in> set kvs. \<exists>b. snd kv = PyBytes b"
      by auto
    from Cons.IH [OF a b, of False] show ?thesis
      using kv 2(1) by simp
  qed
qed

lemma iterencode_record_bytes:
  assumes "\<forall>kv \<in> set kvs. sqlite_value (snd kv)" and "\<exists>kv \<in> set kvs. \<exists>b. snd kv = PyBytes b"
  shows "snd (iterencode indent level (PyDict kvs)) = Some bytes_error
   \<and> fst (iterencode indent level (PyDict kvs)) \<noteq> []
   \<and> last (fst (iterencode indent level (PyDict kvs))) = ustr '': ''"
proof -
  from assms(2) obtain kv kvs' where "kvs = kv # kvs'"
    by (cases kvs) auto
  then show ?thesis
    using iterencode_dict_bytes [OF assms, of indent "Suc level" True] by simp
qed

lemma iterencode_record_clean:
  assumes "\<forall>kv \<in> set kvs. sqlite_value (snd kv)" and "\<not> (\<exists>kv \<in> set kvs. \<exists>b. snd kv = PyBytes b)"
  shows "snd (iterencode indent level (PyDict kvs)) = None"
proof -
  have "no_bytes (PyDict kvs)"
    using assms by (auto simp: sqlite_value_no_bytes)
  then show ?thesis
    by (rule no_bytes_no_error(1))
qed

lemma iterencode_list_bytes:
  "\<forall>d \<in> set ds. \<exists>kvs. d = PyDict kvs \<and> (\<forall>kv \<in> set kvs. sqlite_value (snd kv)) \<Longrightarrow>
   \<exists>d \<in> set ds. \<exists>kvs. d = PyDict kvs \<and> (\<exists>kv \<in> set kvs. \<exists>b. snd kv = PyBytes b) \<Longrightarrow>
   snd (iterencode_list indent level buf ds) = Some bytes_error
   \<and> fst (iterencode_list indent level buf ds) \<noteq> []
   \<and> last (fst (iterencode_list indent level buf ds)) = ustr '': ''"
proof (induction ds arbitrary: buf)
  case Nil
  then show ?case by simp
next
  case (Cons d ds)
  from Cons.prems(1) obtain kvs where d: "d = PyDict kvs"
    and vals: "\<forall>kv \<in> set kvs. sqlite_value (snd kv)"
    by auto
  show ?case
  proof (cases "\<exists>kv \<in> set kvs. \<exists>b. snd kv = PyBytes b")
    case True
    from iterencode_record_bytes [OF vals True, of indent level] show ?thesis
      using d by simp
  next
    case False
    have clean: "snd (iterencode indent level (PyDict kvs)) = None"
      using vals False by (rule iterencode_record_clean)
    from Cons.prems False d have a:
      "\<forall>d \<in> set ds. \<exists>kvs. d = PyDict kvs \<and> (\<forall>kv \<in> set kvs. sqlite_value (snd kv))"
      and b: "\<exists>d \<in> set ds. \<exists>kvs. d = PyDict kvs \<and> (\<exists>kv \<in> set kvs. \<exists>b. snd kv = PyBytes b)"
      by auto
    from Cons.IH [OF a b, of "44 # newline_indent indent level"] show ?thesis
      using d clean by simp
  qed
qed

lemma iterencode_columns_clean:
  "snd (iterencode indent level (PyList (map PyStr cols))) = None"
  by (rule no_bytes_no_error(1)) simp

lemma iterencode_result_doc_bytes:
  assumes "\<forall>d \<in> set data. \<exists>kvs. d = PyDict kvs \<and> (\<forall>kv \<in> set kvs. sqlite_value (snd kv))"
    and "\<exists>d \<in> set data. \<exists>kvs. d = PyDict kvs \<and> (\<exists>kv \<in> set kvs. \<exists>b. snd kv = PyBytes b)"
  shows "snd (iterencode 2 0 (result_doc cols rows data)) = Some bytes_error
   \<and> (\<exists>rest. fst (iterencode 2 0 (result_doc cols rows data)) =
        [ustr ''{'', newline_indent 2 1, encode_basestring (ustr ''table''), ustr '': '',
         encode_basestring (ustr ''todos'')] @ rest @ [ustr '': ''])"
proof -
  from assms(2) obtain d ds where data: "data = d # ds"
    by (cases data) auto
  let ?loop = "iterencode_list 2 2 (91 # newline_indent 2 2) data"
  have loop: "snd ?loop = Some bytes_error" "fst ?loop \<noteq> []" "last (fst ?loop) = ustr '': ''"
    using iterencode_list_bytes [OF assms, of 2 2 "91 # newline_indent 2 2"] by simp_all
  have split: "fst ?loop = butlast (fst ?loop) @ [ustr '': '']"
    using loop(2,3) by (metis append_butlast_last_id)
  have list: "snd (iterencode 2 1 (PyList data)) = Some bytes_error"
    "fst (iterencode 2 1 (PyList data)) = fst ?loop"
    using loop(1) data by (simp_all add: numeral_2_eq_2)
  have cols: "snd (iterencode 2 1 (PyList (map PyStr cols))) = None"
    by (rule iterencode_columns_clean)
  have err: "snd (iterencode 2 0 (result_doc cols rows data)) = Some bytes_error"
    using list cols by (simp add: result_doc_def)
  have "fst (iterencode 2 0 (result_doc cols rows data)) =
        [ustr ''{'', newline_indent 2 1, encode_basestring (ustr ''table''), ustr '': '',
         encode_basestring (ustr ''todos'')]
        @ ([44 # newline_indent 2 1, encode_basestring (ustr ''columns''), ustr '': '']
           @ fst (iterencode 2 1 (PyList (map PyStr cols)))
           @ [44 # newline_indent 2 1, encode_basestring (ustr ''row_count''), ustr '': '',
              intstr (int (length rows)),
              44 # newline_indent 2 1, encode_basestring (ustr ''data''), ustr '': '']
           @ butlast (fst ?loop)) @ [ustr '': '']"
    using list cols split by (simp add: result_doc_def)
  then show ?thesis
    using err by blast
qed

lemma head_text:
  \<open>concat [ustr ''{'', newline_indent 2 1, encode_basestring (ustr ''table''), ustr '': '',
           encode_basestring (ustr ''todos'')] = ustr ''{\<newline>  "table": "todos"''\<close>
  by code_simp

lemma head_bytes:
  \<open>utf8_encode (ustr ''{\<newline>  "table": "todos"'') = Some ''{\<newline>  "table": "todos"''\<close>
  by code_simp

lemma colon_bytes: "utf8_encode (ustr '': '') = Some '': ''"
  by code_simp

lemma json_dump_bytes:
  assumes "texts_ok (result_doc cols rows data)"
    and "\<forall>d \<in> set data. \<exists>kvs. d = PyDict kvs \<and> (\<forall>kv \<in> set kvs. sqlite_value (snd kv))"
    and "\<exists>d \<in> set data. \<exists>kvs. d = PyDict kvs \<and> (\<exists>kv \<in> set kvs. \<exists>b. snd kv = PyBytes b)"
  shows \<open>\<exists>mid. json_dump (result_doc cols rows data) 2 =
           (''{\<newline>  "table": "todos"'' @ mid @ '': '', Some bytes_error)\<close>
proof -
  let ?doc = "result_doc cols rows data"
  let ?head = "[ustr ''{'', newline_indent 2 1, encode_basestring (ustr ''table''), ustr '': '',
                encode_basestring (ustr ''todos'')]"
  from iterencode_result_doc_bytes [OF assms(2,3), of cols rows] obtain rest where
    err: "snd (iterencode 2 0 ?doc) = Some bytes_error"
    and cs: "fst (iterencode 2 0 ?doc) = ?head @ rest @ [ustr '': '']"
    by blast
  have enc: "\<forall>c \<in> set (fst (iterencode 2 0 ?doc)). encodable c"
    using assms(1) by (rule chunks_encodable(1))
  from write_chunks_encodable [OF enc, of "[]"] obtain b where
    b: "utf8_encode (concat (fst (iterencode 2 0 ?doc))) = Some b"
    and wr: "write_chunks (fst (iterencode 2 0 ?doc)) [] = (b, None)"
    by auto
  have "concat (fst (iterencode 2 0 ?doc)) = concat ?head @ concat rest @ ustr '': ''"
    unfolding cs by simp
  then have whole: \<open>concat (fst (iterencode 2 0 ?doc)) =
      ustr ''{\<newline>  "table": "todos"'' @ concat rest @ ustr '': ''\<close>
    unfolding head_text .
  obtain mid where mid: "utf8_encode (concat rest) = Some mid"
    using b unfolding whole utf8_encode_append by (auto split: option.splits)
  have \<open>b = ''{\<newline>  "table": "todos"'' @ mid @ '': ''\<close>
    using b mid unfolding whole utf8_encode_append head_bytes colon_bytes by simp
  then have \<open>json_dump ?doc 2 = (''{\<newline>  "table": "todos"'' @ mid @ '': '', Some bytes_error)\<close>
    using wr err by (cases "iterencode 2 0 ?doc") (simp add: json_dump_def)
  then show ?thesis
    by blast
qed

lemma blob_run:
  \<open>out_after (read_db blob_world) =
     Some (''{\<newline>''
       @ ''  "table": "todos",\<newline>''
       @ ''  "columns": [\<newline>''
       @ ''    "id",\<newline>''
       @ ''    "photo"\<newline>''
       @ ''  ],\<newline>''
       @ ''  "row_count": 1,\<newline>''
       @ ''  "data": [\<newline>''
       @ ''    {\<newline>''
       @ ''      "id": 1,\<newline>''
       @ ''      "photo": '')\<close>
  by code_simp

text \<open>
  C10: when a cell under one of the columns holds \<^verbatim>\<open>bytes\<close>, the run fails in
  \<^verbatim>\<open>json.dump\<close> with \<^verbatim>\<open>TypeError\<close>, after the output file was opened for writing: the
  file does not hold what it held before but the beginning of the new document, cut
  after the \<^verbatim>\<open>": "\<close> that follows the key of the cell; nothing is printed and
  \<^verbatim>\<open>conn.close()\<close> is not reached. Column names are distinct, no row is shorter than
  the column list, the output path can be written, and the names and cells are values
  that \<^verbatim>\<open>sqlite3\<close> returns.
\<close>

theorem blob_cell_leaves_partial_file:
  assumes "todos_of w = Some td"
    and "distinct (map col_name (table_info td))"
    and "\<forall>row \<in> set (table_rows td). length (table_info td) \<le> length row"
    and "out_writable w"
    and "\<forall>c \<in> set (table_info td). encodable (col_name c)"
    and "\<forall>row \<in> set (table_rows td). \<forall>v \<in> set row. sqlite_value v \<and> texts_ok v"
    and "r < length (table_rows td)" and "i < length (table_info td)"
    and "table_rows td ! r ! i = PyBytes b"
  shows \<open>failure (read_db w) =
           Some (Serialize, TypeError ''Object of type bytes is not JSON serializable'')
       \<and> (\<exists>mid. out_after (read_db w) = Some (''{\<newline>  "table": "todos"'' @ mid @ '': ''))
       \<and> \<not> close_called (read_db w) \<and> printed (read_db w) = []\<close>
proof -
  let ?cols = "map col_name (table_info td)"
  let ?rows = "table_rows td"
  let ?data = "map (\<lambda>row. PyDict (zip ?cols row)) ?rows"
  have build: "build_data ?cols ?rows [] = Inr ?data"
    using assms(2,3) build_data_zip [of ?cols ?rows "[]"] by simp
  have vals: "\<forall>d \<in> set ?data. \<exists>kvs. d = PyDict kvs \<and> (\<forall>kv \<in> set kvs. sqlite_value (snd kv))"
  proof
    fix d assume "d \<in> set ?data"
    then obtain row where row: "row \<in> set ?rows" and d: "d = PyDict (zip ?cols row)"
      by auto
    have "\<forall>kv \<in> set (zip ?cols row). sqlite_value (snd kv)"
      using assms(6) row by (auto dest: set_zip_rightD)
    then show "\<exists>kvs. d = PyDict kvs \<and> (\<forall>kv \<in> set kvs. sqlite_value (snd kv))"
      using d by blast
  qed
  have ok: "texts_ok (result_doc ?cols ?rows ?data)"
  proof -
    have "encodable (fst kv) \<and> texts_ok (snd kv)"
      if "row \<in> set ?rows" and "kv \<in> set (zip ?cols row)" for row kv
    proof -
      obtain k v where kv: "kv = (k, v)"
        by (cases kv)
      from that(2) kv have "k \<in> set ?cols" and "v \<in> set row"
        by (auto dest: set_zip_leftD set_zip_rightD)
      then show ?thesis
        using assms(5,6) that(1) kv by auto
    qed
    then show ?thesis
      using assms(5) by (auto simp: result_doc_def)
  qed
  have blob: "\<exists>d \<in> set ?data. \<exists>kvs. d = PyDict kvs \<and> (\<exists>kv \<in> set kvs. \<exists>b. snd kv = PyBytes b)"
  proof -
    let ?row = "?rows ! r"
    have row: "?row \<in> set ?rows"
      using assms(7) by simp
    then have len: "i < length ?row"
      using assms(3,8) by fastforce
    have "zip ?cols ?row ! i = (?cols ! i, ?row ! i)"
      using assms(8) len by simp
    moreover have "i < length (zip ?cols ?row)"
      using assms(8) len by simp
    ultimately have "(?cols ! i, PyBytes b) \<in> set (zip ?cols ?row)"
      using assms(9) by (metis nth_mem)
    then have "\<exists>kv \<in> set (zip ?cols ?row). \<exists>b. snd kv = PyBytes b"
      by force
    moreover have "PyDict (zip ?cols ?row) \<in> set ?data"
      using row by simp
    ultimately show ?thesis
      by blast
  qed
  from json_dump_bytes [OF ok vals blob] obtain mid where
    dump: \<open>json_dump (result_doc ?cols ?rows ?data) 2 =
           (''{\<newline>  "table": "todos"'' @ mid @ '': '',
            Some (TypeError ''Object of type bytes is not JSON serializable''))\<close>
    by blast
  have \<open>read_db w =
      \<lparr>failure = Some (Serialize, TypeError ''Object of type bytes is not JSON serializable''),
       close_called = False,
       out_after = Some (''{\<newline>  "table": "todos"'' @ mid @ '': ''),
       printed = [], document = Some (result_doc ?cols ?rows ?data)\<rparr>\<close>
    using read_db_serialize [OF assms(1) build assms(4)] dump by simp
  then show ?thesis
    by simp
qed

theorem blob_cell_leaves_partial_file_witness:
  \<open>todos_of blob_world = Some blob_table
   \<and> out_writable blob_world
   \<and> out_file blob_world = Some ''old''
   \<and> table_rows blob_table ! 0 ! 1 = PyBytes ''x''
   \<and> failure (read_db blob_world) =
       Some (Serialize, TypeError ''Object of type bytes is not JSON serializable'')
   \<and> out_after (read_db blob_world) =
       Some (''{\<newline>''
         @ ''  "table": "todos",\<newline>''
         @ ''  "columns": [\<newline>''
         @ ''    "id",\<newline>''
         @ ''    "photo"\<newline>''
         @ ''  ],\<newline>''
         @ ''  "row_count": 1,\<newline>''
         @ ''  "data": [\<newline>''
         @ ''    {\<newline>''
         @ ''      "id": 1,\<newline>''
         @ ''      "photo": '')\<close>
proof -
  have h1: "todos_of blob_world = Some blob_table"
    by (simp add: todos_of_def blob_world_def)
  have h2: "distinct (map col_name (table_info blob_table))"
    by (simp add: blob_table_def ustr_def)
  have h3: "\<forall>row \<in> set (table_rows blob_table). length (table_info blob_table) \<le> length row"
    by (simp add: blob_table_def)
  have h4: "out_writable blob_world"
    by (simp add: blob_world_def)
  have h5: "\<forall>c \<in> set (table_info blob_table). encodable (col_name c)"
    by (simp add: blob_table_def)
  have h6: "\<forall>row \<in> set (table_rows blob_table). \<forall>v \<in> set row. sqlite_value v \<and> texts_ok v"
    by (simp add: blob_table_def)
  have h7: "0 < length (table_rows blob_table)" and h8: "1 < length (table_info blob_table)"
    and h9: "table_rows blob_table ! 0 ! 1 = PyBytes ''x''"
    by (simp_all add: blob_table_def)
  have h10: "out_file blob_world = Some ''old''"
    by (simp add: blob_world_def)
  show ?thesis
    using h1 h4 h9 h10 blob_run blob_cell_leaves_partial_file [OF h1 h2 h3 h4 h5 h6 h7 h8 h9]
    by blast
qed

end
